theory Spec2Isabelle
  imports Main "HOL-Library.Word"
begin

unbundle bit_operations_syntax

section \<open>Data model\<close>

text \<open>
  A Python \<open>str\<close> is a sequence of Unicode code points, a \<open>bytes\<close> object a sequence of
  octets.  Literals of the source are written with \<open>str\<close>, which reads an Isabelle string
  literal as its code points.
\<close>

type_synonym pystr = "nat list"
type_synonym byte = "8 word"
type_synonym bytes = "byte list"

definition ord :: "char \<Rightarrow> nat" where
  "ord c = of_char c"

definition str :: "string \<Rightarrow> pystr" where
  "str s = map ord s"

text \<open>
  Every \<open>raise\<close> of the source and every exception of a library call it makes is a value.
  Where the source formats a message with \<open>str(e)\<close> the model keeps the exception itself.
\<close>

datatype error =
    InvalidBase64Length \<comment> \<open>\<open>ValueError\<close> of \<open>b64decode_loose\<close>: length is 1 mod 4\<close>
  | NonAsciiInput \<comment> \<open>\<open>ValueError\<close> of \<open>base64.b64decode\<close>: a \<open>str\<close> with a non-ASCII character\<close>
  | BinasciiInvalidLength \<comment> \<open>\<open>binascii.Error\<close>: one data character more than a multiple of 4\<close>
  | BinasciiIncorrectPadding \<comment> \<open>\<open>binascii.Error\<close>: incorrect padding\<close>
  | SplitFailed "(pystr \<times> nat \<times> error) list" \<comment> \<open>\<open>ValueError\<close> of \<open>split_blob_guess\<close> with its diagnostics\<close>
  | UnicodeEncodeError \<comment> \<open>\<open>str.encode\<close> on a lone surrogate\<close>
  | PayloadTooShort nat \<comment> \<open>\<open>ValueError\<close> of \<open>decrypt_blob\<close> with the decoded length\<close>
  | UnicodeDecodeError \<comment> \<open>\<open>bytes.decode\<close> with \<open>errors="strict"\<close>\<close>
  | JSONDecodeError \<comment> \<open>\<open>json.loads\<close>\<close>
  | LocateError \<comment> \<open>\<open>SystemExit\<close> of \<open>main\<close>: no \<open>pageProps.a\<close>\<close>

section \<open>Python string operations used by the source\<close>

text \<open>
  \<open>str.strip(chars)\<close> removes from both ends every character of the given set;
  \<open>str.strip()\<close> removes the characters for which \<open>str.isspace\<close> holds.
\<close>

definition py_strip_chars :: "(nat \<Rightarrow> bool) \<Rightarrow> pystr \<Rightarrow> pystr" where
  "py_strip_chars P s = rev (dropWhile P (rev (dropWhile P s)))"

definition py_isspace :: "nat \<Rightarrow> bool" where
  "py_isspace c \<longleftrightarrow> (9 \<le> c \<and> c \<le> 13) \<or> (28 \<le> c \<and> c \<le> 32) \<or> c = 133 \<or> c = 160
     \<or> c = 5760 \<or> (8192 \<le> c \<and> c \<le> 8202) \<or> c = 8232 \<or> c = 8233 \<or> c = 8239
     \<or> c = 8287 \<or> c = 12288"

definition py_strip :: "pystr \<Rightarrow> pystr" where
  "py_strip s = py_strip_chars py_isspace s"

text \<open>\<open>s.replace(a, b)\<close> for one-character \<open>a\<close> and \<open>b\<close>.\<close>

definition py_replace :: "nat \<Rightarrow> nat \<Rightarrow> pystr \<Rightarrow> pystr" where
  "py_replace a b s = map (\<lambda>c. if c = a then b else c) s"

text \<open>\<open>s.rfind(c)\<close>: the highest index of \<open>c\<close>, or \<open>-1\<close>.\<close>

fun py_rfind :: "pystr \<Rightarrow> nat \<Rightarrow> int" where
  "py_rfind [] c = -1"
| "py_rfind (x # xs) c =
     (let r = py_rfind xs c in
      if r \<noteq> -1 then r + 1 else if x = c then 0 else -1)"

section \<open>The standard library's Base64 codec\<close>

definition BASE64_PAD :: nat where
  "BASE64_PAD = ord CHR ''=''"

definition table_b2a_base64 :: pystr where
  "table_b2a_base64 =
     str ''ABCDEFGHIJKLMNOPQRSTUVWXYZabcdefghijklmnopqrstuvwxyz0123456789+/''"

text \<open>
  The decoding table of \<open>binascii\<close>: the 6-bit value of a character of the standard
  alphabet, \<open>None\<close> for every other character.
\<close>

definition table_a2b_base64 :: "nat \<Rightarrow> byte option" where
  "table_a2b_base64 c =
     (if 65 \<le> c \<and> c \<le> 90 then Some (of_nat (c - 65))
      else if 97 \<le> c \<and> c \<le> 122 then Some (of_nat (c - 71))
      else if 48 \<le> c \<and> c \<le> 57 then Some (of_nat (c + 4))
      else if c = 43 then Some 62
      else if c = 47 then Some 63
      else None)"

text \<open>
  \<open>binascii.a2b_base64\<close> with \<open>strict_mode=False\<close>, the loop over the input with its state
  \<open>quad_pos\<close>, \<open>leftchar\<close>, \<open>pads\<close> and the output written so far.  A character outside the
  alphabet is skipped; a pad is skipped unless it completes a quad, and then it ends the
  input; data left over in an incomplete quad is an error.
\<close>

fun a2b_base64_loop :: "pystr \<Rightarrow> nat \<Rightarrow> byte \<Rightarrow> nat \<Rightarrow> bytes \<Rightarrow> error + bytes" where
  "a2b_base64_loop [] quad_pos leftchar pads out =
     (if quad_pos = 0 then Inr out
      else if quad_pos = 1 then Inl BinasciiInvalidLength
      else Inl BinasciiIncorrectPadding)"
| "a2b_base64_loop (c # cs) quad_pos leftchar pads out =
     (if c = BASE64_PAD then
        (if quad_pos \<ge> 2 then
           (if quad_pos + (pads + 1) \<ge> 4 then Inr out
            else a2b_base64_loop cs quad_pos leftchar (pads + 1) out)
         else a2b_base64_loop cs quad_pos leftchar pads out)
      else
        (case table_a2b_base64 c of
           None \<Rightarrow> a2b_base64_loop cs quad_pos leftchar pads out
         | Some this_ch \<Rightarrow>
             (if quad_pos = 0 then a2b_base64_loop cs 1 this_ch 0 out
              else if quad_pos = 1 then
                a2b_base64_loop cs 2 (this_ch AND 0x0f) 0
                  (out @ [push_bit 2 leftchar OR drop_bit 4 this_ch])
              else if quad_pos = 2 then
                a2b_base64_loop cs 3 (this_ch AND 0x03) 0
                  (out @ [push_bit 4 leftchar OR drop_bit 2 this_ch])
              else
                a2b_base64_loop cs 0 0 0
                  (out @ [push_bit 6 leftchar OR this_ch]))))"

definition a2b_base64 :: "pystr \<Rightarrow> error + bytes" where
  "a2b_base64 s = a2b_base64_loop s 0 0 0 []"

text \<open>
  \<open>base64.b64decode(s)\<close> on a \<open>str\<close>: the string is encoded as ASCII, which fails on a
  code point above 127, and handed to \<open>binascii.a2b_base64\<close>.
\<close>

definition b64decode :: "pystr \<Rightarrow> error + bytes" where
  "b64decode s = (if list_ex (\<lambda>c. c \<ge> 128) s then Inl NonAsciiInput else a2b_base64 s)"

text \<open>
  \<open>base64.b64encode\<close>: the standard alphabet with \<open>=\<close> padding (RFC 4648), three octets
  to four characters.
\<close>

definition b2a :: "byte \<Rightarrow> nat" where
  "b2a v = table_b2a_base64 ! unat v"

fun b64encode :: "bytes \<Rightarrow> pystr" where
  "b64encode [] = []"
| "b64encode [a] =
     [b2a (drop_bit 2 a), b2a (push_bit 4 (a AND 3)), BASE64_PAD, BASE64_PAD]"
| "b64encode [a, b] =
     [b2a (drop_bit 2 a), b2a (push_bit 4 (a AND 3) OR drop_bit 4 b),
      b2a (push_bit 2 (b AND 0x0f)), BASE64_PAD]"
| "b64encode (a # b # c # rest) =
     [b2a (drop_bit 2 a), b2a (push_bit 4 (a AND 3) OR drop_bit 4 b),
      b2a (push_bit 2 (b AND 0x0f) OR drop_bit 6 c), b2a (c AND 0x3f)] @ b64encode rest"

section \<open>The tolerant decoder\<close>

definition b64decode_loose :: "pystr \<Rightarrow> error + bytes" where
  "b64decode_loose s0 =
     (let s = py_strip s0;
          s = py_replace (ord CHR ''_'') (ord CHR ''/'') (py_replace (ord CHR ''-'') (ord CHR ''+'') s);
          md = length s mod 4
      in if md = 1 then Inl InvalidBase64Length
         else b64decode (if md = 2 \<or> md = 3 then s @ replicate (4 - md) BASE64_PAD else s))"

section \<open>The Splitter\<close>

definition DQUOTE :: nat where
  "DQUOTE = ord (CHR 0x22)"

definition SQUOTE :: nat where
  "SQUOTE = ord (CHR 0x27)"

text \<open>Line 58: \<open>blob.strip().strip('"').strip("'")\<close>.\<close>

definition trim_blob :: "pystr \<Rightarrow> pystr" where
  "trim_blob blob =
     py_strip_chars (\<lambda>c. c = SQUOTE) (py_strip_chars (\<lambda>c. c = DQUOTE) (py_strip blob))"

text \<open>A candidate is the pair \<open>(key_str, enc_b64)\<close>, in the order of the source's tuple.\<close>

type_synonym candidate = "pystr \<times> pystr"

text \<open>
  Lines 61 to 68: the loop over the key lengths.  The guard \<open>L <= key_len + 10\<close> keeps
  \<open>L - key_len\<close> positive, so both slices are plain \<open>drop\<close> and \<open>take\<close>.
\<close>

fun suffix_loop :: "pystr \<Rightarrow> nat list \<Rightarrow> candidate list \<Rightarrow> candidate list" where
  "suffix_loop blob [] candidates = candidates"
| "suffix_loop blob (key_len # rest) candidates =
     (let L = length blob in
      if L \<le> key_len + 10 then suffix_loop blob rest candidates
      else
        (let key_str = drop (L - key_len) blob;
             enc_b64 = take (L - key_len) blob
         in suffix_loop blob rest (candidates @ [(key_str, enc_b64)])))"

definition suffix_candidates :: "pystr \<Rightarrow> candidate list" where
  "suffix_candidates blob = suffix_loop blob [21, 22, 20, 23] []"

text \<open>Lines 72 to 77: the split at the last \<open>=\<close>, inserted at the front.\<close>

definition delimiter_insert :: "pystr \<Rightarrow> candidate list \<Rightarrow> candidate list" where
  "delimiter_insert blob candidates =
     (let L = int (length blob);
          last_eq = py_rfind blob (ord CHR ''='')
      in if last_eq \<noteq> -1 \<and> last_eq < L - 5 then
           (let possible_key = drop (nat (last_eq + 1)) blob;
                possible_enc = take (nat (last_eq + 1)) blob
            in if 18 \<le> length possible_key \<and> length possible_key \<le> 30
               then (possible_key, possible_enc) # candidates
               else candidates)
         else candidates)"

text \<open>
  Lines 80 to 90: the first candidate whose \<open>enc_b64\<close> decodes is returned; the errors of
  the others are collected for the message of the final \<open>ValueError\<close>.
\<close>

fun validate_loop :: "candidate list \<Rightarrow> (pystr \<times> nat \<times> error) list \<Rightarrow> error + candidate" where
  "validate_loop [] errors = Inl (SplitFailed (take 8 errors))"
| "validate_loop ((key_str, enc_b64) # rest) errors =
     (case b64decode_loose enc_b64 of
        Inr _ \<Rightarrow> Inr (key_str, enc_b64)
      | Inl e \<Rightarrow> validate_loop rest (errors @ [(take 8 key_str, length enc_b64, e)]))"

definition split_blob_guess :: "pystr \<Rightarrow> error + candidate" where
  "split_blob_guess blob0 =
     (let blob = trim_blob blob0;
          candidates = delimiter_insert blob (suffix_candidates blob)
      in validate_loop candidates [])"

section \<open>JSON values and the Locator\<close>

text \<open>
  What \<open>json.load\<close> returns: a \<open>dict\<close> keeps its entries in insertion order, a \<open>float\<close> is
  kept as its 64 bits.
\<close>

datatype json =
    JNull
  | JBool bool
  | JInt int
  | JFloat "64 word"
  | JStr pystr
  | JList "json list"
  | JDict "(pystr \<times> json) list"

definition dict_get :: "(pystr \<times> json) list \<Rightarrow> pystr \<Rightarrow> json option" where
  "dict_get d k = map_of d k"

text \<open>
  The test the source makes three times (lines 132 to 134, 139 to 141 and 146 to 149): the
  entry \<open>pageProps\<close> of a \<open>dict\<close> is a \<open>dict\<close> whose entry \<open>a\<close> is a \<open>str\<close>.
\<close>

definition pageProps_a :: "(pystr \<times> json) list \<Rightarrow> pystr option" where
  "pageProps_a node =
     (case dict_get node (str ''pageProps'') of
        Some (JDict pp) \<Rightarrow>
          (case dict_get pp (str ''a'') of Some (JStr a) \<Rightarrow> Some a | _ \<Rightarrow> None)
      | _ \<Rightarrow> None)"

text \<open>The inner function \<open>rec\<close> with its two loops.\<close>

fun rec :: "json \<Rightarrow> pystr option"
  and rec_values :: "(pystr \<times> json) list \<Rightarrow> pystr option"
  and rec_items :: "json list \<Rightarrow> pystr option" where
  "rec (JDict node) =
     (case pageProps_a node of Some a \<Rightarrow> Some a | None \<Rightarrow> rec_values node)"
| "rec (JList node) = rec_items node"
| "rec JNull = None"
| "rec (JBool b) = None"
| "rec (JInt i) = None"
| "rec (JFloat f) = None"
| "rec (JStr s) = None"
| "rec_values [] = None"
| "rec_values ((k, v) # rest) =
     (case rec v of Some got \<Rightarrow> Some got | None \<Rightarrow> rec_values rest)"
| "rec_items [] = None"
| "rec_items (it # rest) =
     (case rec it of Some got \<Rightarrow> Some got | None \<Rightarrow> rec_items rest)"

definition find_pageprops_a :: "json \<Rightarrow> pystr option" where
  "find_pageprops_a data =
     (case data of
        JDict d \<Rightarrow>
          (case pageProps_a d of
             Some a \<Rightarrow> Some a
           | None \<Rightarrow>
               (case dict_get d (str ''props'') of
                  Some (JDict props) \<Rightarrow>
                    (case pageProps_a props of Some a \<Rightarrow> Some a | None \<Rightarrow> rec data)
                | _ \<Rightarrow> rec data))
      | _ \<Rightarrow> rec data)"

section \<open>The Decryptor\<close>

text \<open>
  The primitives the program takes from its platform and from PyCryptodome are
  parameters: the SHA-256 digest, the AES-256 block encryption, the strict UTF-8 decoder
  and the JSON parser (\<open>None\<close> where they raise).  Every theorem holds for all of them.
\<close>

record platform =
  sha256 :: "bytes \<Rightarrow> 256 word"
  aes256_encrypt :: "256 word \<Rightarrow> 128 word \<Rightarrow> 128 word"
  utf8_decode :: "bytes \<Rightarrow> pystr option"
  json_loads :: "pystr \<Rightarrow> json option"

text \<open>\<open>str.encode("utf-8")\<close>: a surrogate code point cannot be encoded.\<close>

definition utf8_encode_char :: "nat \<Rightarrow> bytes option" where
  "utf8_encode_char c =
     (if c < 0x80 then Some [of_nat c]
      else if c < 0x800 then Some [of_nat (0xC0 + c div 64), of_nat (0x80 + c mod 64)]
      else if 0xD800 \<le> c \<and> c \<le> 0xDFFF then None
      else if c < 0x10000 then
        Some [of_nat (0xE0 + c div 4096), of_nat (0x80 + c div 64 mod 64),
              of_nat (0x80 + c mod 64)]
      else
        Some [of_nat (0xF0 + c div 262144), of_nat (0x80 + c div 4096 mod 64),
              of_nat (0x80 + c div 64 mod 64), of_nat (0x80 + c mod 64)])"

fun utf8_encode :: "pystr \<Rightarrow> error + bytes" where
  "utf8_encode [] = Inr []"
| "utf8_encode (c # cs) =
     (case utf8_encode_char c of
        None \<Rightarrow> Inl UnicodeEncodeError
      | Some bs \<Rightarrow> (case utf8_encode cs of Inl e \<Rightarrow> Inl e | Inr r \<Rightarrow> Inr (bs @ r)))"

text \<open>\<open>int.from_bytes(iv, "big")\<close>.\<close>

definition int_from_bytes_big :: "bytes \<Rightarrow> nat" where
  "int_from_bytes_big bs = foldl (\<lambda>acc b. acc * 256 + unat b) 0 bs"

text \<open>
  Modelled from the spec: the counter mode of \<open>AES.new(key, AES.MODE_CTR, nonce=b"",
  initial_value=n)\<close>, which is PyCryptodome's and not part of the repository.  With an
  empty nonce the whole 16-byte block is the counter: block \<open>i\<close> of the key stream is the
  encryption of \<open>n + i\<close> as one big-endian 128-bit integer, and \<open>decrypt\<close> combines the data
  with the key stream by exclusive or.
\<close>

definition counter_block :: "nat \<Rightarrow> nat \<Rightarrow> 128 word" where
  "counter_block initial_value i = of_nat (initial_value + i)"

definition block_bytes :: "128 word \<Rightarrow> bytes" where
  "block_bytes w = map (\<lambda>i. ucast (drop_bit (8 * (15 - i)) w)) [0..<16]"

definition keystream_byte :: "platform \<Rightarrow> 256 word \<Rightarrow> nat \<Rightarrow> nat \<Rightarrow> byte" where
  "keystream_byte P key initial_value j =
     block_bytes (aes256_encrypt P key (counter_block initial_value (j div 16))) ! (j mod 16)"

definition aes_ctr_crypt :: "platform \<Rightarrow> 256 word \<Rightarrow> nat \<Rightarrow> bytes \<Rightarrow> bytes" where
  "aes_ctr_crypt P key initial_value data =
     map (\<lambda>(j, b). b XOR keystream_byte P key initial_value j) (enumerate 0 data)"

text \<open>Lines 120 and 121: \<open>json.loads(pt.decode("utf-8", errors="strict"))\<close>.\<close>

definition parse_plaintext :: "platform \<Rightarrow> bytes \<Rightarrow> error + json" where
  "parse_plaintext P pt =
     (case utf8_decode P pt of
        None \<Rightarrow> Inl UnicodeDecodeError
      | Some text \<Rightarrow>
          (case json_loads P text of None \<Rightarrow> Inl JSONDecodeError | Some v \<Rightarrow> Inr v))"

definition decrypt_blob :: "platform \<Rightarrow> pystr \<Rightarrow> error + json" where
  "decrypt_blob P blob =
     (case split_blob_guess blob of
        Inl e \<Rightarrow> Inl e
      | Inr (key_str, enc_b64) \<Rightarrow>
          (case utf8_encode key_str of
             Inl e \<Rightarrow> Inl e
           | Inr key_bytes \<Rightarrow>
               (let key = sha256 P key_bytes in
                case b64decode_loose enc_b64 of
                  Inl e \<Rightarrow> Inl e
                | Inr raw \<Rightarrow>
                    if length raw < 17 then Inl (PayloadTooShort (length raw))
                    else
                      (let iv = take 16 raw;
                           ct = drop 16 raw;
                           pt = aes_ctr_crypt P key (int_from_bytes_big iv) ct
                       in parse_plaintext P pt))))"

section \<open>The program\<close>

text \<open>
  \<open>main\<close> from the loaded JSON value on (lines 173 to 177); its result is the value the
  source then serialises and prints.  \<open>not blob\<close> holds for \<open>None\<close> and for the empty
  string.
\<close>

definition main :: "platform \<Rightarrow> json \<Rightarrow> error + json" where
  "main P data =
     (case find_pageprops_a data of
        None \<Rightarrow> Inl LocateError
      | Some blob \<Rightarrow> if blob = [] then Inl LocateError else decrypt_blob P blob)"

section \<open>Notions used in the statements\<close>

text \<open>The standard alphabet by position: \<open>A\<close> to \<open>Z\<close>, \<open>a\<close> to \<open>z\<close>, the digits, \<open>+\<close> and \<open>/\<close>.\<close>

definition b2a_arith :: "nat \<Rightarrow> nat" where
  "b2a_arith n =
     (if n < 26 then 65 + n else if n < 52 then 71 + n else if n < 62 then n - 4
      else if n = 62 then 43 else 47)"

text \<open>A 6-bit value, as the encoder produces and the decoding table returns.\<close>

definition sextet :: "byte \<Rightarrow> bool" where
  "sextet v \<longleftrightarrow> v AND 0x3f = v"

text \<open>
  A character the tolerant decoder leaves alone: ASCII, no white space, neither \<open>-\<close> nor
  \<open>_\<close>.
\<close>

definition plain_char :: "nat \<Rightarrow> bool" where
  "plain_char c \<longleftrightarrow> c < 128 \<and> \<not> py_isspace c \<and> c \<noteq> 45 \<and> c \<noteq> 95"

text \<open>
  The padding-stripped string of the specification's words: the string without its
  trailing \<open>=\<close> characters.
\<close>

definition rstrip_padding :: "pystr \<Rightarrow> pystr" where
  "rstrip_padding s = rev (dropWhile (\<lambda>c. c = BASE64_PAD) (rev s))"

text \<open>
  The splits of the specification's words.  The suffix-length split for the key length
  \<open>k\<close>: \<open>key_material = blob[L-k:L]\<close>, \<open>encoded_ciphertext = blob[0:L-k]\<close>.
\<close>

definition suffix_split :: "pystr \<Rightarrow> nat \<Rightarrow> candidate" where
  "suffix_split blob k = (drop (length blob - k) blob, take (length blob - k) blob)"

text \<open>Everything after the last \<open>=\<close>.\<close>

definition text_after_last_eq :: "pystr \<Rightarrow> pystr" where
  "text_after_last_eq blob = rev (takeWhile (\<lambda>c. c \<noteq> BASE64_PAD) (rev blob))"

text \<open>
  The delimiter split: there is an \<open>=\<close>, the last one has at least 5 characters after it,
  and the text after it has between 18 and 30 characters; the key material is that text
  and the encoded ciphertext everything before it, the \<open>=\<close> included.
\<close>

definition delimiter_candidate :: "pystr \<Rightarrow> candidate option" where
  "delimiter_candidate blob =
     (let key_material = text_after_last_eq blob in
      if BASE64_PAD \<in> set blob \<and> 5 \<le> length key_material
         \<and> 18 \<le> length key_material \<and> length key_material \<le> 30
      then Some (key_material, take (length blob - length key_material) blob)
      else None)"

text \<open>The order of trial: the delimiter split, then the key lengths 21, 22, 20, 23.\<close>

definition candidate_order :: "pystr \<Rightarrow> candidate list" where
  "candidate_order blob =
     (case delimiter_candidate blob of Some c \<Rightarrow> [c] | None \<Rightarrow> [])
     @ map (suffix_split blob) (filter (\<lambda>k. k + 10 < length blob) [21, 22, 20, 23])"

text \<open>The ciphertext half of a candidate decodes without error.\<close>

definition decodes :: "candidate \<Rightarrow> bool" where
  "decodes c = (case b64decode_loose (snd c) of Inr raw \<Rightarrow> True | Inl e \<Rightarrow> False)"

text \<open>The diagnostic of a candidate that does not decode.\<close>

definition diagnostic :: "candidate \<Rightarrow> pystr \<times> nat \<times> error" where
  "diagnostic c = (take 8 (fst c), length (snd c), projl (b64decode_loose (snd c)))"

text \<open>A string begins, or ends, with a character of a given kind.\<close>

definition begins_with :: "(nat \<Rightarrow> bool) \<Rightarrow> pystr \<Rightarrow> bool" where
  "begins_with P s = (case s of [] \<Rightarrow> False | c # rest \<Rightarrow> P c)"

definition ends_with :: "(nat \<Rightarrow> bool) \<Rightarrow> pystr \<Rightarrow> bool" where
  "ends_with P s = begins_with P (rev s)"

text \<open>
  The trimming of the specification's words: one layer of surrounding matching quote
  characters is removed, and only when the two ends match.
\<close>

definition strip_one_quote_layer :: "pystr \<Rightarrow> pystr" where
  "strip_one_quote_layer s =
     (if 2 \<le> length s \<and> hd s = last s \<and> (hd s = DQUOTE \<or> hd s = SQUOTE)
      then butlast (tl s) else s)"

text \<open>
  The values of a JSON document in the order of a depth-first traversal: a value before
  the values nested in it, the entries of an object and the items of an array in their
  order.
\<close>

fun nodes :: "json \<Rightarrow> json list"
  and nodes_values :: "(pystr \<times> json) list \<Rightarrow> json list"
  and nodes_items :: "json list \<Rightarrow> json list" where
  "nodes (JDict d) = JDict d # nodes_values d"
| "nodes (JList xs) = JList xs # nodes_items xs"
| "nodes JNull = [JNull]"
| "nodes (JBool b) = [JBool b]"
| "nodes (JInt i) = [JInt i]"
| "nodes (JFloat f) = [JFloat f]"
| "nodes (JStr s) = [JStr s]"
| "nodes_values [] = []"
| "nodes_values ((k, v) # rest) = nodes v @ nodes_values rest"
| "nodes_items [] = []"
| "nodes_items (it # rest) = nodes it @ nodes_items rest"

text \<open>The value at a path of keys, through objects only, and the string at a path.\<close>

fun lookup_path :: "pystr list \<Rightarrow> json \<Rightarrow> json option" where
  "lookup_path [] v = Some v"
| "lookup_path (k # ks) (JDict d) =
     (case dict_get d k of Some w \<Rightarrow> lookup_path ks w | None \<Rightarrow> None)"
| "lookup_path (k # ks) v = None"

definition string_at :: "pystr list \<Rightarrow> json \<Rightarrow> pystr option" where
  "string_at path v = (case lookup_path path v of Some (JStr s) \<Rightarrow> Some s | _ \<Rightarrow> None)"

text \<open>The first result along a list.\<close>

fun first_some :: "('a \<Rightarrow> 'b option) \<Rightarrow> 'a list \<Rightarrow> 'b option" where
  "first_some f [] = None"
| "first_some f (x # xs) = (case f x of Some y \<Rightarrow> Some y | None \<Rightarrow> first_some f xs)"

text \<open>
  The inverse construction of the specification's words: the key is the digest of the
  UTF-8 bytes of the key material, the ciphertext the counter-mode encryption of the
  plaintext bytes under that key with the 16-byte IV as initial counter, the encoded
  ciphertext the standard Base64 text of the IV followed by the ciphertext, and the blob
  the encoded ciphertext followed by the key material.
\<close>

definition encrypt_blob :: "platform \<Rightarrow> pystr \<Rightarrow> bytes \<Rightarrow> bytes \<Rightarrow> error + pystr" where
  "encrypt_blob P key_material plaintext iv =
     (case utf8_encode key_material of
        Inl e \<Rightarrow> Inl e
      | Inr key_bytes \<Rightarrow>
          Inr (b64encode (iv @ aes_ctr_crypt P (sha256 P key_bytes) (int_from_bytes_big iv) plaintext)
               @ key_material))"

text \<open>The input document of the specification's scenario, with the blob at \<open>props.pageProps.a\<close>.\<close>

definition payload :: "pystr \<Rightarrow> json" where
  "payload blob = JDict [(str ''props'', JDict [(str ''pageProps'', JDict [(str ''a'', JStr blob)])])]"

text \<open>A character that line 58 removes from the ends of a blob: white space or a quote.\<close>

definition trimmable :: "nat \<Rightarrow> bool" where
  "trimmable c \<longleftrightarrow> py_isspace c \<or> c = DQUOTE \<or> c = SQUOTE"

section \<open>Base64: decoding an encoding\<close>

lemma byte_eqI:
  fixes x y :: "8 word"
  assumes "bit x 0 = bit y 0" "bit x 1 = bit y 1" "bit x 2 = bit y 2" "bit x 3 = bit y 3"
    "bit x 4 = bit y 4" "bit x 5 = bit y 5" "bit x 6 = bit y 6" "bit x 7 = bit y 7"
  shows "x = y"
proof (rule bit_word_eqI)
  fix n assume "n < LENGTH(8)"
  then have "n < Suc (Suc (Suc (Suc (Suc (Suc (Suc (Suc 0)))))))" by simp
  with assms show "bit x n = bit y n"
    unfolding less_Suc_eq by (auto simp: eval_nat_numeral)
qed

lemma table_b2a_map: "table_b2a_base64 = map b2a_arith [0..<64]"
  by code_simp

lemma table_b2a_arith:
  "n < 64 \<Longrightarrow> table_b2a_base64 ! n =
     (if n < 26 then 65 + n else if n < 52 then 71 + n else if n < 62 then n - 4
      else if n = 62 then 43 else 47)"
  unfolding table_b2a_map by (simp add: b2a_arith_def)

lemma table_a2b_b2a:
  "n < 64 \<Longrightarrow> table_a2b_base64 (table_b2a_base64 ! n) = Some (of_nat n)"
proof -
  assume n: "n < 64"
  consider "n < 26" | "26 \<le> n" "n < 52" | "52 \<le> n" "n < 62" | "n = 62" | "n = 63"
    using n by linarith
  then show ?thesis
  proof cases
    case 3
    then have t: "table_b2a_base64 ! n = n - 4"
      using n by (simp add: table_b2a_arith)
    from 3 have "table_a2b_base64 (n - 4) = Some (of_nat (n - 4 + 4))"
      unfolding table_a2b_base64_def by auto
    moreover from 3 have "n - 4 + 4 = n" by simp
    ultimately show ?thesis using t by simp
  qed (simp_all add: table_b2a_arith table_a2b_base64_def)
qed

lemma table_b2a_char:
  assumes "n < 64"
  shows "table_b2a_base64 ! n < 128" "table_b2a_base64 ! n \<noteq> BASE64_PAD"
    "\<not> py_isspace (table_b2a_base64 ! n)" "table_b2a_base64 ! n \<noteq> 45"
    "table_b2a_base64 ! n \<noteq> 95" "table_b2a_base64 ! n \<noteq> DQUOTE"
    "table_b2a_base64 ! n \<noteq> SQUOTE"
  using assms
  by (auto simp: table_b2a_arith BASE64_PAD_def DQUOTE_def SQUOTE_def ord_def py_isspace_def
      split: if_splits)

lemma sextet_bound: "(v::8 word) AND 0x3f = v \<Longrightarrow> unat v < 64"
proof -
  assume a: "v AND 0x3f = v"
  have "unat (v AND 0x3f) \<le> unat (0x3f :: 8 word)"
    by (rule word_and_le1 [THEN word_le_nat_alt [THEN iffD1]])
  with a show ?thesis by simp
qed


lemma sextets:
  "sextet (drop_bit 2 a)" "sextet (push_bit 4 (a AND 3))"
  "sextet (push_bit 4 (a AND 3) OR drop_bit 4 b)" "sextet (push_bit 2 (b AND 0x0f))"
  "sextet (push_bit 2 (b AND 0x0f) OR drop_bit 6 c)" "sextet (c AND 0x3f)"
  unfolding sextet_def
  by (rule byte_eqI; auto simp: bit_simps dest: bit_imp_le_length)+

lemma b2a_sextet:
  assumes "sextet v"
  shows "table_a2b_base64 (b2a v) = Some v" "b2a v < 128" "b2a v \<noteq> BASE64_PAD"
    "\<not> py_isspace (b2a v)" "b2a v \<noteq> 45" "b2a v \<noteq> 95" "b2a v \<noteq> DQUOTE" "b2a v \<noteq> SQUOTE"
  using sextet_bound[of v] assms table_a2b_b2a[of "unat v"] table_b2a_char[of "unat v"]
  by (simp_all add: sextet_def b2a_def)

lemma decode_bits:
  "push_bit 2 (drop_bit 2 a) OR drop_bit 4 (push_bit 4 (a AND 3) OR drop_bit 4 b) = (a :: 8 word)"
  "push_bit 2 (drop_bit 2 a) OR drop_bit 4 (push_bit 4 (a AND 3)) = (a :: 8 word)"
  "(push_bit 4 (a AND 3) OR drop_bit 4 b) AND 0x0f = drop_bit 4 (b :: 8 word)"
  "push_bit 4 (drop_bit 4 b) OR drop_bit 2 (push_bit 2 (b AND 0x0f) OR drop_bit 6 c) = (b::8 word)"
  "push_bit 4 (drop_bit 4 b) OR drop_bit 2 (push_bit 2 (b AND 0x0f)) = (b::8 word)"
  "(push_bit 2 (b AND 0x0f) OR drop_bit 6 c) AND 0x03 = drop_bit 6 (c :: 8 word)"
  "push_bit 6 (drop_bit 6 c) OR (c AND 0x3f) = (c :: 8 word)"
  by (rule byte_eqI; auto simp: bit_simps dest: bit_imp_le_length)+

lemma loop_quad0: "a2b_base64_loop s 0 l p out = a2b_base64_loop s 0 0 0 out"
  by (induction s arbitrary: l p) (auto split: option.splits)

lemma loop_quad:
  assumes "sextet v0" "sextet v1" "sextet v2" "sextet v3"
  shows "a2b_base64_loop (b2a v0 # b2a v1 # b2a v2 # b2a v3 # t) 0 0 0 out
     = a2b_base64_loop t 0 0 0
         (out @ [push_bit 2 v0 OR drop_bit 4 v1, push_bit 4 (v1 AND 0x0f) OR drop_bit 2 v2,
                 push_bit 6 (v2 AND 0x03) OR v3])"
  using assms by (simp add: b2a_sextet)

lemma loop_quad_pad1:
  assumes "sextet v0" "sextet v1" "sextet v2"
  shows "a2b_base64_loop (b2a v0 # b2a v1 # b2a v2 # BASE64_PAD # t) 0 0 0 out
     = Inr (out @ [push_bit 2 v0 OR drop_bit 4 v1, push_bit 4 (v1 AND 0x0f) OR drop_bit 2 v2])"
  using assms by (simp add: b2a_sextet)

lemma loop_quad_pad2:
  assumes "sextet v0" "sextet v1"
  shows "a2b_base64_loop (b2a v0 # b2a v1 # BASE64_PAD # BASE64_PAD # t) 0 0 0 out
     = Inr (out @ [push_bit 2 v0 OR drop_bit 4 v1])"
  using assms by (simp add: b2a_sextet)

lemma loop_group3:
  "a2b_base64_loop ([b2a (drop_bit 2 a), b2a (push_bit 4 (a AND 3) OR drop_bit 4 b),
      b2a (push_bit 2 (b AND 0x0f) OR drop_bit 6 c), b2a (c AND 0x3f)] @ t) 0 0 0 out
   = a2b_base64_loop t 0 0 0 (out @ [a, b, c])"
  unfolding append_Cons append_Nil
  by (subst loop_quad) (simp_all only: sextets decode_bits)

lemma loop_group2:
  "a2b_base64_loop ([b2a (drop_bit 2 a), b2a (push_bit 4 (a AND 3) OR drop_bit 4 b),
      b2a (push_bit 2 (b AND 0x0f)), BASE64_PAD] @ t) 0 0 0 out = Inr (out @ [a, b])"
  unfolding append_Cons append_Nil
  by (subst loop_quad_pad1) (simp_all only: sextets decode_bits)

lemma loop_group1:
  "a2b_base64_loop ([b2a (drop_bit 2 a), b2a (push_bit 4 (a AND 3)), BASE64_PAD, BASE64_PAD] @ t)
     0 0 0 out = Inr (out @ [a])"
  unfolding append_Cons append_Nil
  by (subst loop_quad_pad2) (simp_all only: sextets decode_bits)

lemma loop_b64encode:
  "a2b_base64_loop (b64encode bs @ t) 0 0 0 out =
     (if length bs mod 3 = 0 then a2b_base64_loop t 0 0 0 (out @ bs) else Inr (out @ bs))"
proof (induction bs arbitrary: out rule: b64encode.induct)
  case 1
  then show ?case by simp
next
  case (2 a)
  show ?case using loop_group1[of a t out] by simp
next
  case (3 a b)
  show ?case using loop_group2[of a b t out] by simp
next
  case (4 a b c rest)
  have "a2b_base64_loop (b64encode (a # b # c # rest) @ t) 0 0 0 out
      = a2b_base64_loop (b64encode rest @ t) 0 0 0 (out @ [a, b, c])"
    using loop_group3[of a b c "b64encode rest @ t" out] by simp
  then show ?case using 4[of "out @ [a, b, c]"] by simp
qed

lemma a2b_base64_b64encode: "a2b_base64 (b64encode bs) = Inr bs"
  using loop_b64encode[of bs "[]" "[]"] by (simp add: a2b_base64_def)

lemma pad_char:
  "BASE64_PAD < 128" "\<not> py_isspace BASE64_PAD" "BASE64_PAD \<noteq> 45" "BASE64_PAD \<noteq> 95"
  by (simp_all add: BASE64_PAD_def ord_def py_isspace_def)

lemma plain_b2a: "sextet v \<Longrightarrow> plain_char (b2a v)"
  by (simp add: plain_char_def b2a_sextet)

lemma plain_pad: "plain_char BASE64_PAD"
  by (simp add: plain_char_def pad_char)

lemmas plain_sextets = sextets[THEN plain_b2a]

lemma b64encode_plain: "list_all plain_char (b64encode bs)"
  by (induction bs rule: b64encode.induct)
    (simp_all only: b64encode.simps list.pred_inject list_all_append plain_sextets plain_pad simp_thms)

lemma b64encode_chars:
  "c \<in> set (b64encode bs) \<Longrightarrow> c < 128 \<and> \<not> py_isspace c \<and> c \<noteq> 45 \<and> c \<noteq> 95"
  using b64encode_plain[of bs] by (simp add: list_all_iff plain_char_def)

lemma b64encode_length: "length (b64encode bs) mod 4 = 0"
  by (induction bs rule: b64encode.induct) (simp_all only: b64encode.simps list.size length_append, simp_all)

lemma dropWhile_id: "(\<And>c. c \<in> set s \<Longrightarrow> \<not> P c) \<Longrightarrow> dropWhile P s = s"
  by (cases s) simp_all

lemma py_strip_chars_id:
  assumes "\<And>c. c \<in> set s \<Longrightarrow> \<not> P c"
  shows "py_strip_chars P s = s"
proof -
  have "dropWhile P s = s" using assms by (rule dropWhile_id)
  moreover have "dropWhile P (rev s) = rev s" using assms by (intro dropWhile_id) simp
  ultimately show ?thesis by (simp add: py_strip_chars_def)
qed

lemma py_replace_id: "a \<notin> set s \<Longrightarrow> py_replace a b s = s"
  by (induction s) (auto simp: py_replace_def)

lemma b64decode_loose_plain:
  assumes "\<And>c. c \<in> set s \<Longrightarrow> c < 128 \<and> \<not> py_isspace c \<and> c \<noteq> 45 \<and> c \<noteq> 95"
    and "length s mod 4 = 0"
  shows "b64decode_loose s = a2b_base64 s"
proof -
  have 1: "py_strip s = s" unfolding py_strip_def using assms(1) by (intro py_strip_chars_id) blast
  have 2: "py_replace (ord CHR ''-'') (ord CHR ''+'') s = s"
    using assms(1) by (intro py_replace_id) (auto simp: ord_def)
  have 3: "py_replace (ord CHR ''_'') (ord CHR ''/'') s = s"
    using assms(1) by (intro py_replace_id) (auto simp: ord_def)
  have 4: "\<not> list_ex (\<lambda>c. c \<ge> 128) s"
  proof
    assume "list_ex (\<lambda>c. c \<ge> 128) s"
    then obtain c where "c \<in> set s" "c \<ge> 128" by (auto simp: list_ex_iff)
    with assms(1)[of c] show False by simp
  qed
  show ?thesis
    unfolding b64decode_loose_def Let_def 1 2 3 using assms(2) 4 by (simp add: b64decode_def)
qed

lemma b64decode_loose_encode: "b64decode_loose (b64encode b) = Inr b"
  using b64decode_loose_plain[of "b64encode b"] b64encode_chars b64encode_length
    a2b_base64_b64encode by simp

lemma a2b_loop_error:
  "a2b_base64_loop s q l p out = Inl e \<Longrightarrow> e = BinasciiInvalidLength \<or> e = BinasciiIncorrectPadding"
  by (induction s q l p out rule: a2b_base64_loop.induct) (auto split: if_splits option.splits)

lemma b64decode_error:
  "b64decode s = Inl e \<Longrightarrow> e = NonAsciiInput \<or> e = BinasciiInvalidLength \<or> e = BinasciiIncorrectPadding"
  using a2b_loop_error by (auto simp: b64decode_def a2b_base64_def split: if_splits)

lemma b64decode_loose_mod1_iff:
  "b64decode_loose s = Inl InvalidBase64Length \<longleftrightarrow> length (py_strip s) mod 4 = 1"
proof (cases "length (py_strip s) mod 4 = 1")
  case True
  then show ?thesis by (simp add: b64decode_loose_def Let_def py_replace_def)
next
  case False
  then obtain t where "b64decode_loose s = b64decode t"
    by (simp add: b64decode_loose_def Let_def py_replace_def)
  with False b64decode_error[of t InvalidBase64Length] show ?thesis by auto
qed

section \<open>The Splitter: candidates and their order\<close>

lemma suffix_loop_eq:
  "suffix_loop blob ks acc =
     acc @ map (suffix_split blob) (filter (\<lambda>k. k + 10 < length blob) ks)"
  by (induction ks arbitrary: acc) (auto simp: Let_def suffix_split_def not_le)

lemma suffix_candidates_eq:
  "suffix_candidates blob =
     map (suffix_split blob) (filter (\<lambda>k. k + 10 < length blob) [21, 22, 20, 23])"
  by (simp only: suffix_candidates_def suffix_loop_eq append_Nil)

lemma suffix_split_parts: "snd (suffix_split blob k) @ fst (suffix_split blob k) = blob"
  by (simp add: suffix_split_def)

lemma suffix_split_lengths:
  "k + 10 < length blob \<Longrightarrow>
     length (snd (suffix_split blob k)) = length blob - k \<and> length (fst (suffix_split blob k)) = k"
  by (simp add: suffix_split_def)

lemma takeWhile_neq_less: "c \<in> set ys \<Longrightarrow> length (takeWhile (\<lambda>x. x \<noteq> c) ys) < length ys"
  by (induction ys) auto

lemma py_rfind_takeWhile:
  "py_rfind s c =
     (if c \<in> set s
      then int (length s) - 1 - int (length (takeWhile (\<lambda>x. x \<noteq> c) (rev s)))
      else -1)"
proof (induction s)
  case Nil
  then show ?case by simp
next
  case (Cons x xs)
  show ?case
  proof (cases "c \<in> set xs")
    case True
    then have "takeWhile (\<lambda>x. x \<noteq> c) (rev xs @ [x]) = takeWhile (\<lambda>x. x \<noteq> c) (rev xs)"
      by (simp add: takeWhile_append1)
    moreover from True have "length (takeWhile (\<lambda>x. x \<noteq> c) (rev xs)) < length xs"
      using takeWhile_neq_less[of c "rev xs"] by simp
    ultimately show ?thesis using True Cons by (simp add: Let_def)
  next
    case False
    then have "takeWhile (\<lambda>x. x \<noteq> c) (rev xs @ [x]) = rev xs @ takeWhile (\<lambda>x. x \<noteq> c) [x]"
      by (intro takeWhile_append2) auto
    then show ?thesis using False Cons by (auto simp: Let_def)
  qed
qed

lemma text_after_last_eq_drop:
  "text_after_last_eq blob = drop (length blob - length (text_after_last_eq blob)) blob"
proof -
  let ?n = "length (takeWhile (\<lambda>c. c \<noteq> BASE64_PAD) (rev blob))"
  have "takeWhile (\<lambda>c. c \<noteq> BASE64_PAD) (rev blob) = take ?n (rev blob)"
    by (rule takeWhile_eq_take)
  then have "text_after_last_eq blob = rev (take ?n (rev blob))"
    by (simp add: text_after_last_eq_def)
  also have "\<dots> = drop (length blob - ?n) blob"
    by (simp add: take_rev)
  finally show ?thesis by (simp add: text_after_last_eq_def)
qed

lemma text_after_last_eq_length:
  "BASE64_PAD \<in> set blob \<Longrightarrow> length (text_after_last_eq blob) < length blob"
  using takeWhile_neq_less[of BASE64_PAD "rev blob"] by (simp add: text_after_last_eq_def)

lemma delimiter_insert_eq:
  "delimiter_insert blob cs =
     (case delimiter_candidate blob of Some c \<Rightarrow> c # cs | None \<Rightarrow> cs)"
proof (cases "BASE64_PAD \<in> set blob")
  case False
  then show ?thesis
    by (simp add: delimiter_insert_def delimiter_candidate_def py_rfind_takeWhile
        BASE64_PAD_def Let_def)
next
  case True
  let ?k = "text_after_last_eq blob"
  have lt: "length ?k < length blob" using True by (rule text_after_last_eq_length)
  have r: "py_rfind blob (ord CHR ''='') = int (length blob) - 1 - int (length ?k)"
    using True by (simp add: py_rfind_takeWhile text_after_last_eq_def BASE64_PAD_def)
  have n: "nat (py_rfind blob (ord CHR ''='') + 1) = length blob - length ?k"
    using lt by (simp add: r)
  have d: "drop (length blob - length ?k) blob = ?k"
    using text_after_last_eq_drop[of blob] by simp
  have ne: "py_rfind blob (ord CHR ''='') \<noteq> -1" using lt by (simp add: r)
  have c5: "py_rfind blob (ord CHR ''='') < int (length blob) - 5 \<longleftrightarrow> 5 \<le> length ?k"
    using lt by (auto simp: r)
  show ?thesis
    unfolding delimiter_insert_def delimiter_candidate_def Let_def n d
    using True ne c5 by simp
qed

lemma validate_loop_find:
  "validate_loop cs errors =
     (case find decodes cs of
        Some c \<Rightarrow> Inr c
      | None \<Rightarrow> Inl (SplitFailed (take 8 (errors @ map diagnostic cs))))"
proof (induction cs arbitrary: errors)
  case Nil
  then show ?case by simp
next
  case (Cons c cs)
  obtain k e where c: "c = (k, e)" by (cases c)
  show ?case
  proof (cases "b64decode_loose e")
    case (Inl err)
    then have "diagnostic (k, e) = (take 8 k, length e, err)" "\<not> decodes (k, e)"
      by (simp_all add: diagnostic_def decodes_def)
    then show ?thesis unfolding c using Inl Cons[of "errors @ [(take 8 k, length e, err)]"]
      by (simp split: option.split)
  next
    case (Inr raw)
    then have "decodes (k, e)" by (simp add: decodes_def)
    then show ?thesis unfolding c using Inr by simp
  qed
qed

lemma split_blob_guess_candidates:
  "delimiter_insert blob (suffix_candidates blob) = candidate_order blob"
  by (simp add: delimiter_insert_eq suffix_candidates_eq candidate_order_def split: option.splits)

lemma candidate_order_length: "length (candidate_order blob) \<le> 8"
  by (simp add: candidate_order_def split: option.splits)

lemma split_blob_guess_eq:
  "split_blob_guess blob =
     (case find decodes (candidate_order (trim_blob blob)) of
        Some c \<Rightarrow> Inr c
      | None \<Rightarrow> Inl (SplitFailed (map diagnostic (candidate_order (trim_blob blob)))))"
proof -
  have "take 8 (map diagnostic (candidate_order (trim_blob blob)))
      = map diagnostic (candidate_order (trim_blob blob))"
    using candidate_order_length[of "trim_blob blob"] by simp
  then show ?thesis
    by (simp add: split_blob_guess_def Let_def split_blob_guess_candidates validate_loop_find
        split: option.split)
qed

lemma candidate_order_parts:
  "c \<in> set (candidate_order blob) \<Longrightarrow> snd c @ fst c = blob"
proof -
  assume "c \<in> set (candidate_order blob)"
  then consider "delimiter_candidate blob = Some c" | k where "c = suffix_split blob k"
    by (auto simp: candidate_order_def split: option.splits)
  then show ?thesis
  proof cases
    case 1
    then have "c = (text_after_last_eq blob,
        take (length blob - length (text_after_last_eq blob)) blob)"
      by (auto simp: delimiter_candidate_def Let_def split: if_splits)
    then show ?thesis using text_after_last_eq_drop[of blob]
      by (simp) (metis append_take_drop_id)
  next
    case 2
    then show ?thesis by (simp add: suffix_split_parts)
  qed
qed

lemma split_blob_guess_parts:
  "split_blob_guess blob = Inr (key_material, enc) \<Longrightarrow> enc @ key_material = trim_blob blob"
proof -
  assume a: "split_blob_guess blob = Inr (key_material, enc)"
  then have "find decodes (candidate_order (trim_blob blob)) = Some (key_material, enc)"
    by (simp add: split_blob_guess_eq split: option.splits)
  then have "(key_material, enc) \<in> set (candidate_order (trim_blob blob))"
    by (auto simp: find_Some_iff)
  from candidate_order_parts[OF this] show ?thesis by simp
qed

section \<open>Trimming\<close>

lemma begins_with_dropWhile: "\<not> begins_with P (dropWhile P s)"
  by (induction s) (auto simp: begins_with_def)

lemma begins_with_prefix: "t \<noteq> [] \<Longrightarrow> begins_with P (t @ b) = begins_with P t"
  by (cases t) (auto simp: begins_with_def)

lemma rev_split: "m = rev (dropWhile P (rev m)) @ rev (takeWhile P (rev m))"
  by (metis rev_append rev_rev_ident takeWhile_dropWhile_id)

lemma py_strip_chars_decomp:
  "\<exists>a b. a @ py_strip_chars P s @ b = s \<and> list_all P a \<and> list_all P b"
proof -
  let ?m = "dropWhile P s"
  let ?t = "py_strip_chars P s"
  let ?b = "rev (takeWhile P (rev ?m))"
  have m: "?t @ ?b = ?m" unfolding py_strip_chars_def by (rule rev_split[symmetric])
  have "takeWhile P s @ ?m = s" by simp
  then have "takeWhile P s @ ?t @ ?b = s" unfolding m .
  moreover have "list_all P (takeWhile P s)" by (simp add: list_all_iff) (meson set_takeWhileD)
  moreover have "list_all P ?b" by (simp add: list_all_iff) (meson set_takeWhileD)
  ultimately show ?thesis by blast
qed

lemma py_strip_chars_ends: "\<not> ends_with P (py_strip_chars P s)"
  by (simp add: ends_with_def py_strip_chars_def begins_with_dropWhile)

lemma py_strip_chars_begins: "\<not> begins_with P (py_strip_chars P s)"
proof (cases "py_strip_chars P s = []")
  case True
  then show ?thesis by (simp add: begins_with_def)
next
  case False
  let ?m = "dropWhile P s"
  have m: "?m = py_strip_chars P s @ rev (takeWhile P (rev ?m))"
    unfolding py_strip_chars_def by (rule rev_split)
  have "\<not> begins_with P ?m" by (rule begins_with_dropWhile)
  then have "\<not> begins_with P (py_strip_chars P s @ rev (takeWhile P (rev ?m)))"
    using m by simp
  then show ?thesis using False by (simp add: begins_with_prefix)
qed

lemma trim_blob_decomp:
  "\<exists>w1 d1 s1 s2 d2 w2.
      blob = w1 @ d1 @ s1 @ trim_blob blob @ s2 @ d2 @ w2
    \<and> list_all py_isspace w1 \<and> list_all py_isspace w2
    \<and> list_all (\<lambda>c. c = DQUOTE) d1 \<and> list_all (\<lambda>c. c = DQUOTE) d2
    \<and> list_all (\<lambda>c. c = SQUOTE) s1 \<and> list_all (\<lambda>c. c = SQUOTE) s2
    \<and> \<not> begins_with py_isspace (d1 @ s1 @ trim_blob blob @ s2 @ d2)
    \<and> \<not> ends_with py_isspace (d1 @ s1 @ trim_blob blob @ s2 @ d2)
    \<and> \<not> begins_with (\<lambda>c. c = DQUOTE) (s1 @ trim_blob blob @ s2)
    \<and> \<not> ends_with (\<lambda>c. c = DQUOTE) (s1 @ trim_blob blob @ s2)
    \<and> \<not> begins_with (\<lambda>c. c = SQUOTE) (trim_blob blob)
    \<and> \<not> ends_with (\<lambda>c. c = SQUOTE) (trim_blob blob)"
proof -
  let ?a = "py_strip blob"
  let ?b = "py_strip_chars (\<lambda>c. c = DQUOTE) ?a"
  let ?c = "py_strip_chars (\<lambda>c. c = SQUOTE) ?b"
  have t: "trim_blob blob = ?c" by (simp add: trim_blob_def)
  obtain w1 w2 where w: "w1 @ ?a @ w2 = blob" "list_all py_isspace w1" "list_all py_isspace w2"
    using py_strip_chars_decomp[where s=blob and P=py_isspace] unfolding py_strip_def by blast
  obtain d1 d2 where d: "d1 @ ?b @ d2 = ?a" "list_all (\<lambda>c. c = DQUOTE) d1"
      "list_all (\<lambda>c. c = DQUOTE) d2"
    using py_strip_chars_decomp[where s="?a" and P="\<lambda>c. c = DQUOTE"] by blast
  obtain s1 s2 where s: "s1 @ ?c @ s2 = ?b" "list_all (\<lambda>c. c = SQUOTE) s1"
      "list_all (\<lambda>c. c = SQUOTE) s2"
    using py_strip_chars_decomp[where s="?b" and P="\<lambda>c. c = SQUOTE"] by blast
  have "d1 @ (s1 @ ?c @ s2) @ d2 = ?a" unfolding s(1) by (rule d(1))
  then have a_eq: "d1 @ s1 @ ?c @ s2 @ d2 = ?a" by simp
  have b_eq: "s1 @ ?c @ s2 = ?b" by (rule s(1))
  have "w1 @ (d1 @ s1 @ ?c @ s2 @ d2) @ w2 = blob" unfolding a_eq by (rule w(1))
  then have 1: "blob = w1 @ d1 @ s1 @ ?c @ s2 @ d2 @ w2" by simp
  have "\<not> begins_with py_isspace ?a" "\<not> ends_with py_isspace ?a"
    unfolding py_strip_def by (rule py_strip_chars_begins py_strip_chars_ends)+
  then have 2: "\<not> begins_with py_isspace (d1 @ s1 @ ?c @ s2 @ d2)"
    "\<not> ends_with py_isspace (d1 @ s1 @ ?c @ s2 @ d2)"
    by (simp_all only: a_eq simp_thms)
  have "\<not> begins_with (\<lambda>c. c = DQUOTE) ?b" "\<not> ends_with (\<lambda>c. c = DQUOTE) ?b"
    by (rule py_strip_chars_begins py_strip_chars_ends)+
  then have 3: "\<not> begins_with (\<lambda>c. c = DQUOTE) (s1 @ ?c @ s2)"
    "\<not> ends_with (\<lambda>c. c = DQUOTE) (s1 @ ?c @ s2)"
    by (simp_all only: b_eq simp_thms)
  have 4: "\<not> begins_with (\<lambda>c. c = SQUOTE) ?c" "\<not> ends_with (\<lambda>c. c = SQUOTE) ?c"
    by (rule py_strip_chars_begins py_strip_chars_ends)+
  show ?thesis unfolding t
    using 1 w(2,3) d(2,3) s(2,3) 2 3 4 by blast
qed

section \<open>The Locator and the locate step\<close>

lemma first_some_append:
  "first_some f (xs @ ys) = (case first_some f xs of Some y \<Rightarrow> Some y | None \<Rightarrow> first_some f ys)"
  by (induction xs) (auto split: option.splits)

lemma first_some_None: "first_some f xs = None \<longleftrightarrow> list_all (\<lambda>x. f x = None) xs"
  by (induction xs) (auto split: option.splits)

lemma pageProps_a_string_at:
  "pageProps_a d = string_at [str ''pageProps'', str ''a''] (JDict d)"
  by (auto simp: pageProps_a_def string_at_def split: option.splits json.splits)

lemma string_at_scalar:
  "string_at (k # ks) JNull = None" "string_at (k # ks) (JBool b) = None"
  "string_at (k # ks) (JInt i) = None" "string_at (k # ks) (JFloat f) = None"
  "string_at (k # ks) (JStr s) = None" "string_at (k # ks) (JList xs) = None"
  by (simp_all add: string_at_def)

lemma rec_first_some:
  "rec v = first_some (string_at [str ''pageProps'', str ''a'']) (nodes v)"
  "rec_values d = first_some (string_at [str ''pageProps'', str ''a'']) (nodes_values d)"
  "rec_items xs = first_some (string_at [str ''pageProps'', str ''a'']) (nodes_items xs)"
  by (induction v and d and xs rule: rec_rec_values_rec_items.induct)
    (simp_all add: first_some_append pageProps_a_string_at string_at_scalar split: option.splits)

lemma props_string_at:
  "string_at [str ''props'', str ''pageProps'', str ''a''] (JDict d) =
     (case dict_get d (str ''props'') of
        Some (JDict props) \<Rightarrow> pageProps_a props
      | _ \<Rightarrow> None)"
  by (auto simp: pageProps_a_def string_at_def split: option.splits json.splits)

lemma find_pageprops_a_eq:
  "find_pageprops_a data =
     (case string_at [str ''pageProps'', str ''a''] data of
        Some s \<Rightarrow> Some s
      | None \<Rightarrow>
          (case string_at [str ''props'', str ''pageProps'', str ''a''] data of
             Some s \<Rightarrow> Some s
           | None \<Rightarrow> first_some (string_at [str ''pageProps'', str ''a'']) (nodes data)))"
proof (cases data)
  case (JDict d)
  show ?thesis
    unfolding JDict find_pageprops_a_def json.case props_string_at
      pageProps_a_string_at[symmetric] rec_first_some(1)
    by (simp split: option.splits json.splits)
qed (simp_all add: find_pageprops_a_def string_at_def rec_first_some(1))

lemma find_pageprops_a_None:
  "find_pageprops_a data = None \<longleftrightarrow>
     list_all (\<lambda>n. string_at [str ''pageProps'', str ''a''] n = None) (nodes data)"
proof -
  let ?f = "string_at [str ''pageProps'', str ''a'']"
  have hd: "\<exists>rest. nodes data = data # rest" by (cases data) simp_all
  have a: "first_some ?f (nodes data) = None \<Longrightarrow> ?f data = None"
    using hd by (auto split: option.splits)
  have b: "first_some ?f (nodes data) = None \<Longrightarrow>
      string_at [str ''props'', str ''pageProps'', str ''a''] data = None"
  proof (cases data)
    case (JDict d)
    assume n: "first_some ?f (nodes data) = None"
    show ?thesis
    proof (cases "dict_get d (str ''props'')")
      case None
      then show ?thesis by (simp add: JDict props_string_at)
    next
      case (Some p)
      then have "(str ''props'', p) \<in> set d" by (simp add: dict_get_def map_of_SomeD)
      then obtain d1 d2 where "d = d1 @ (str ''props'', p) # d2" by (meson split_list)
      then have "nodes_values d = nodes_values d1 @ nodes p @ nodes_values d2"
        by (induction d1 arbitrary: d) auto
      with n have "first_some ?f (nodes p) = None"
        by (simp add: JDict first_some_append split: option.splits)
      moreover have "\<exists>rest. nodes p = p # rest" by (cases p) simp_all
      ultimately have "?f p = None" by (auto split: option.splits)
      then show ?thesis
        by (cases p) (simp_all add: JDict props_string_at Some pageProps_a_string_at)
    qed
  qed (simp_all add: string_at_def)
  have "find_pageprops_a data = None \<longleftrightarrow> first_some ?f (nodes data) = None"
  proof
    assume "find_pageprops_a data = None"
    then show "first_some ?f (nodes data) = None"
      unfolding find_pageprops_a_eq by (simp split: option.splits)
  next
    assume n: "first_some ?f (nodes data) = None"
    show "find_pageprops_a data = None"
      unfolding find_pageprops_a_eq using a[OF n] b[OF n] n by simp
  qed
  then show ?thesis by (simp only: first_some_None)
qed

lemma validate_loop_error: "validate_loop cs errs = Inl e \<Longrightarrow> \<exists>d. e = SplitFailed d"
  by (auto simp: validate_loop_find split: option.splits)

lemma utf8_encode_error: "utf8_encode s = Inl e \<Longrightarrow> e = UnicodeEncodeError"
  by (induction s arbitrary: e) (auto split: option.splits sum.splits)

lemma b64decode_loose_error:
  "b64decode_loose s = Inl e \<Longrightarrow>
     e = InvalidBase64Length \<or> e = NonAsciiInput \<or> e = BinasciiInvalidLength
     \<or> e = BinasciiIncorrectPadding"
  using b64decode_error by (auto simp: b64decode_loose_def Let_def split: if_splits)

lemma parse_plaintext_error:
  "parse_plaintext P pt = Inl e \<Longrightarrow> e = UnicodeDecodeError \<or> e = JSONDecodeError"
  by (auto simp: parse_plaintext_def split: option.splits)

lemma decrypt_blob_not_locate: "decrypt_blob P blob \<noteq> Inl LocateError"
proof
  assume a: "decrypt_blob P blob = Inl LocateError"
  show False
  proof (cases "split_blob_guess blob")
    case (Inl e)
    then show False using a validate_loop_error[of _ "[]" e]
      by (auto simp: decrypt_blob_def split_blob_guess_def Let_def)
  next
    case (Inr c)
    obtain k enc where c: "c = (k, enc)" by (cases c)
    show False
    proof (cases "utf8_encode k")
      case (Inl e)
      then show False using a Inr c utf8_encode_error[of k e] by (simp add: decrypt_blob_def)
    next
      case kb: (Inr key_bytes)
      show False
      proof (cases "b64decode_loose enc")
        case (Inl e)
        then show False using a Inr c kb b64decode_loose_error[of enc e]
          by (auto simp: decrypt_blob_def)
      next
        case raw: (Inr raw)
        then show False using a Inr c kb parse_plaintext_error[of P _ LocateError]
          by (auto simp: decrypt_blob_def Let_def split: if_splits)
      qed
    qed
  qed
qed

lemma main_locate_error:
  "main P data = Inl LocateError \<longleftrightarrow>
     find_pageprops_a data = None \<or> find_pageprops_a data = Some []"
  using decrypt_blob_not_locate by (auto simp: main_def split: option.splits)

lemma main_proceeds:
  "find_pageprops_a data = Some blob \<Longrightarrow> blob \<noteq> [] \<Longrightarrow> main P data = decrypt_blob P blob"
  by (simp add: main_def)

section \<open>The Decryptor and the inverse construction\<close>

lemma enumerate_map_pair:
  "enumerate n (map (\<lambda>(j, b). f j b) (enumerate n d)) = map (\<lambda>(j, b). (j, f j b)) (enumerate n d)"
  by (induction d arbitrary: n) simp_all

lemma aes_ctr_crypt_involution:
  "aes_ctr_crypt P key n (aes_ctr_crypt P key n d) = d"
proof -
  let ?k = "keystream_byte P key n"
  have "aes_ctr_crypt P key n (aes_ctr_crypt P key n d)
      = map (\<lambda>(j, b). b XOR ?k j) (map (\<lambda>(j, b). (j, b XOR ?k j)) (enumerate 0 d))"
    unfolding aes_ctr_crypt_def by (simp only: enumerate_map_pair)
  also have "\<dots> = map snd (enumerate 0 d)"
    by (simp add: case_prod_unfold comp_def xor.assoc)
  also have "\<dots> = d" by (rule map_snd_enumerate)
  finally show ?thesis .
qed

lemma aes_ctr_crypt_length: "length (aes_ctr_crypt P key n d) = length d"
  by (simp add: aes_ctr_crypt_def)

lemma split_blob_guess_decodes:
  "split_blob_guess blob = Inr (key_material, enc) \<Longrightarrow> \<exists>raw. b64decode_loose enc = Inr raw"
proof -
  assume "split_blob_guess blob = Inr (key_material, enc)"
  then have "find decodes (candidate_order (trim_blob blob)) = Some (key_material, enc)"
    by (simp add: split_blob_guess_eq split: option.splits)
  then have "decodes (key_material, enc)" by (auto simp: find_Some_iff)
  then show ?thesis by (simp add: decodes_def split: sum.splits)
qed

lemma decrypt_blob_steps:
  assumes "split_blob_guess blob = Inr (key_material, enc)"
    and "utf8_encode key_material = Inr key_bytes"
    and "b64decode_loose enc = Inr raw"
  shows "decrypt_blob P blob =
     (if length raw < 17 then Inl (PayloadTooShort (length raw))
      else parse_plaintext P
        (aes_ctr_crypt P (sha256 P key_bytes) (int_from_bytes_big (take 16 raw)) (drop 16 raw)))"
  using assms by (simp add: decrypt_blob_def Let_def)

lemma decrypt_blob_unencodable:
  assumes "split_blob_guess blob = Inr (key_material, enc)"
    and "utf8_encode key_material = Inl e"
  shows "decrypt_blob P blob = Inl UnicodeEncodeError"
  using assms utf8_encode_error[of key_material e] by (simp add: decrypt_blob_def)

lemma b64encode_hd:
  "bs \<noteq> [] \<Longrightarrow> b64encode bs \<noteq> [] \<and> hd (b64encode bs) = b2a (drop_bit 2 (hd bs))"
  by (induction bs rule: b64encode.induct) simp_all

lemma pad_not_b2a: "sextet v \<Longrightarrow> BASE64_PAD \<noteq> b2a v"
  using b2a_sextet(3)[of v] by simp

lemmas pad_not_sextets = sextets[THEN pad_not_b2a]

lemma b64encode_pad_iff: "BASE64_PAD \<in> set (b64encode bs) \<longleftrightarrow> length bs mod 3 \<noteq> 0"
  by (induction bs rule: b64encode.induct)
    (simp_all only: b64encode.simps set_simps set_append insert_iff empty_iff Un_iff
      pad_not_sextets list.size length_append simp_thms, simp_all)

lemma b64encode_last_pad:
  "length bs mod 3 \<noteq> 0 \<Longrightarrow> b64encode bs \<noteq> [] \<and> last (b64encode bs) = BASE64_PAD"
proof (induction bs rule: b64encode.induct)
  case (4 a b c rest)
  then have r: "length rest mod 3 \<noteq> 0" by simp
  with 4 have "b64encode rest \<noteq> []" "last (b64encode rest) = BASE64_PAD" by simp_all
  then show ?case by (simp only: b64encode.simps last_appendR) simp
qed simp_all

lemma b64encode_length_eq: "length (b64encode bs) = 4 * ((length bs + 2) div 3)"
proof (induction bs rule: b64encode.induct)
  case (4 a b c rest)
  have "length (b64encode (a # b # c # rest)) = 4 + length (b64encode rest)"
    by simp
  also have "\<dots> = 4 + 4 * ((length rest + 2) div 3)" by (simp only: 4)
  also have "\<dots> = 4 * ((length (a # b # c # rest) + 2) div 3)"
  proof -
    have "(length rest + 2 + 3) div 3 = (length rest + 2) div 3 + 1" by (rule div_add_self2) simp
    then show ?thesis by (simp add: add.commute add.left_commute)
  qed
  finally show ?case .
qed simp_all

lemma py_strip_chars_ends_id:
  assumes "s \<noteq> []" "\<not> P (hd s)" "\<not> P (last s)"
  shows "py_strip_chars P s = s"
proof -
  have "dropWhile P s = s" using assms(1,2) by (cases s) simp_all
  moreover have "dropWhile P (rev s) = rev s"
    using assms(1,3) by (cases "rev s") (simp_all add: hd_rev[symmetric])
  ultimately show ?thesis by (simp add: py_strip_chars_def)
qed

lemma trim_blob_id:
  assumes "s \<noteq> []" "\<not> trimmable (hd s)" "\<not> trimmable (last s)"
  shows "trim_blob s = s"
  using assms by (simp add: trim_blob_def py_strip_def trimmable_def py_strip_chars_ends_id)

lemma text_after_last_eq_append:
  assumes "enc \<noteq> []" "last enc = BASE64_PAD" "BASE64_PAD \<notin> set km"
  shows "text_after_last_eq (enc @ km) = km"
proof -
  obtain e where e: "rev enc = BASE64_PAD # e"
    using assms(1,2) by (cases "rev enc") (simp_all add: hd_rev[symmetric])
  have "takeWhile (\<lambda>c. c \<noteq> BASE64_PAD) (rev km @ rev enc) = rev km"
    using assms(3) unfolding e by (subst takeWhile_append2) auto
  then show ?thesis by (simp add: text_after_last_eq_def)
qed

lemma b2a_not_trimmable: "sextet v \<Longrightarrow> \<not> trimmable (b2a v)"
  by (simp add: trimmable_def b2a_sextet)

lemma b64encode_hd_not_trimmable:
  "bs \<noteq> [] \<Longrightarrow> \<not> trimmable (hd (b64encode bs))"
  using b64encode_hd[of bs] by (simp add: b2a_not_trimmable sextets(1))

lemma find_pageprops_a_payload: "find_pageprops_a (payload blob) = Some blob"
  by (simp add: payload_def find_pageprops_a_def pageProps_a_def dict_get_def str_def ord_def)

lemma decodes_encoded: "decodes (km, b64encode raw)"
  by (simp add: decodes_def b64decode_loose_encode)

lemma split_constructed:
  assumes raw: "17 \<le> length raw"
    and nopad: "BASE64_PAD \<notin> set km"
    and last_km: "\<not> trimmable (last km)"
    and len: "length km = 21 \<or> (length km = 22 \<and> \<not> py_isspace (hd km))
        \<or> (18 \<le> length km \<and> length km \<le> 30 \<and> length raw mod 3 \<noteq> 0)"
  shows "split_blob_guess (b64encode raw @ km) = Inr (km, b64encode raw)"
proof -
  let ?enc = "b64encode raw"
  let ?blob = "?enc @ km"
  have raw_ne: "raw \<noteq> []" using raw by auto
  have enc_ne: "?enc \<noteq> []" using b64encode_hd[OF raw_ne] by simp
  have km_len: "18 \<le> length km" "length km \<le> 30" using len by auto
  have km_ne: "km \<noteq> []" using km_len by auto
  have enc_len: "24 \<le> length ?enc" using raw by (simp add: b64encode_length_eq)
  have enc_mod: "length ?enc mod 4 = 0" by (rule b64encode_length)
  have trim: "trim_blob ?blob = ?blob"
    using enc_ne km_ne b64encode_hd_not_trimmable[OF raw_ne] last_km
    by (intro trim_blob_id) simp_all
  have take_enc: "take (length ?blob - length km) ?blob = ?enc" by simp
  have drop_km: "drop (length ?blob - length km) ?blob = km" by simp
  have "find decodes (candidate_order ?blob) = Some (km, ?enc)"
  proof (cases "length raw mod 3 = 0")
    case False
    then have lp: "last ?enc = BASE64_PAD" and "BASE64_PAD \<in> set ?enc"
      using b64encode_last_pad[of raw] b64encode_pad_iff[of raw] by simp_all
    then have "delimiter_candidate ?blob = Some (km, ?enc)"
      using text_after_last_eq_append[OF enc_ne lp nopad] km_len
      by (simp add: delimiter_candidate_def Let_def)
    then show ?thesis by (simp add: candidate_order_def decodes_encoded)
  next
    case True
    then have "BASE64_PAD \<notin> set ?blob" using b64encode_pad_iff[of raw] nopad by simp
    then have none: "delimiter_candidate ?blob = None"
      by (simp add: delimiter_candidate_def Let_def)
    from True len consider "length km = 21" | "length km = 22" "\<not> py_isspace (hd km)" by auto
    then show ?thesis
    proof cases
      case 1
      then have "suffix_split ?blob 21 = (km, ?enc)" by (simp add: suffix_split_def)
      then show ?thesis using 1 enc_len none
        by (simp add: candidate_order_def decodes_encoded)
    next
      case 2
      obtain c rest where km: "km = c # rest" using km_ne by (cases km) auto
      have s22: "suffix_split ?blob 22 = (km, ?enc)" using 2 by (simp add: suffix_split_def)
      have s21: "suffix_split ?blob 21 = (rest, ?enc @ [c])"
        using 2 by (simp add: suffix_split_def km)
      have "py_strip (?enc @ [c]) = ?enc @ [c]"
        unfolding py_strip_def
        using enc_ne b64encode_hd_not_trimmable[OF raw_ne] 2(2)
        by (intro py_strip_chars_ends_id) (simp_all add: trimmable_def km)
      then have "length (py_strip (?enc @ [c])) mod 4 = 1"
        using enc_mod by (simp add: mod_Suc)
      then have "b64decode_loose (?enc @ [c]) = Inl InvalidBase64Length"
        by (simp add: b64decode_loose_mod1_iff)
      then have nd: "\<not> decodes (rest, ?enc @ [c])" by (simp add: decodes_def)
      show ?thesis using 2 enc_len none s21 s22 nd
        by (simp add: candidate_order_def decodes_encoded)
    qed
  qed
  then show ?thesis by (simp add: split_blob_guess_eq trim)
qed

lemma roundtrip:
  assumes enc: "utf8_encode key_material = Inr key_bytes"
    and iv: "length iv = 16"
    and pt: "plaintext \<noteq> []"
    and nopad: "BASE64_PAD \<notin> set key_material"
    and last_km: "\<not> trimmable (last key_material)"
    and len: "length key_material = 21
        \<or> (length key_material = 22 \<and> \<not> py_isspace (hd key_material))
        \<or> (18 \<le> length key_material \<and> length key_material \<le> 30
            \<and> (16 + length plaintext) mod 3 \<noteq> 0)"
  shows "\<exists>blob ciphertext.
      ciphertext = aes_ctr_crypt P (sha256 P key_bytes) (int_from_bytes_big iv) plaintext
    \<and> blob = b64encode (iv @ ciphertext) @ key_material
    \<and> encrypt_blob P key_material plaintext iv = Inr blob
    \<and> find_pageprops_a (payload blob) = Some blob
    \<and> split_blob_guess blob = Inr (key_material, b64encode (iv @ ciphertext))
    \<and> decrypt_blob P blob = parse_plaintext P plaintext
    \<and> main P (payload blob) = parse_plaintext P plaintext"
proof -
  let ?key = "sha256 P key_bytes"
  let ?n = "int_from_bytes_big iv"
  let ?ct = "aes_ctr_crypt P ?key ?n plaintext"
  let ?raw = "iv @ ?ct"
  let ?blob = "b64encode ?raw @ key_material"
  have ct_len: "length ?ct = length plaintext" by (rule aes_ctr_crypt_length)
  have raw_len: "length ?raw = 16 + length plaintext" using iv ct_len by simp
  have raw17: "17 \<le> length ?raw" using raw_len pt by (cases plaintext) simp_all
  have len': "length key_material = 21
        \<or> (length key_material = 22 \<and> \<not> py_isspace (hd key_material))
        \<or> (18 \<le> length key_material \<and> length key_material \<le> 30
            \<and> length ?raw mod 3 \<noteq> 0)"
    using len unfolding raw_len .
  have split: "split_blob_guess ?blob = Inr (key_material, b64encode ?raw)"
    using raw17 nopad last_km len' by (rule split_constructed)
  have dec: "b64decode_loose (b64encode ?raw) = Inr ?raw" by (rule b64decode_loose_encode)
  have "decrypt_blob P ?blob = parse_plaintext P (aes_ctr_crypt P ?key
      (int_from_bytes_big (take 16 ?raw)) (drop 16 ?raw))"
    using decrypt_blob_steps[OF split enc dec, of P] raw17 by simp
  then have d: "decrypt_blob P ?blob = parse_plaintext P plaintext"
    using iv by (simp add: aes_ctr_crypt_involution)
  have ne: "?blob \<noteq> []" using len by auto
  have m: "main P (payload ?blob) = parse_plaintext P plaintext"
    using main_proceeds[OF find_pageprops_a_payload ne, of P] d by simp
  have e: "encrypt_blob P key_material plaintext iv = Inr ?blob"
    using enc by (simp add: encrypt_blob_def)
  show ?thesis using e find_pageprops_a_payload[of ?blob] split d m by blast
qed

section \<open>The claims\<close>

text \<open>
  C5.  For every byte string \<open>b\<close>, of any length, the tolerant decoder applied to the
  standard Base64 encoding of \<open>b\<close> (standard alphabet, \<open>=\<close> padding) returns exactly \<open>b\<close>.
\<close>

theorem C5_b64decode_loose_roundtrip: "b64decode_loose (b64encode b) = Inr b"
  by (rule b64decode_loose_encode)

text \<open>
  C6, as the specification words it: the decoder raises on every string whose
  padding-stripped length is 1 modulo 4, rejecting it rather than adding padding.  The
  source measures the length after trimming white space, with every \<open>=\<close> still counted.
  Three strings whose padding-stripped length is 5: the first two are decoded, the third
  is padded by the decoder and only then rejected by the library.
\<close>

theorem C6_padding_stripped_counterexample:
  "length (rstrip_padding (str ''!AAAA==='')) mod 4 = 1
   \<and> b64decode_loose (str ''!AAAA==='') = Inr [0, 0, 0]
   \<and> length (rstrip_padding (str ''AA=AA==='')) mod 4 = 1
   \<and> b64decode_loose (str ''AA=AA==='') = Inr [0, 0, 0]
   \<and> length (rstrip_padding (str ''AAAAA='')) mod 4 = 1
   \<and> b64decode_loose (str ''AAAAA='') = Inl BinasciiInvalidLength"
  by (simp add: rstrip_padding_def b64decode_loose_def str_def ord_def py_strip_def
      py_strip_chars_def py_isspace_def py_replace_def b64decode_def a2b_base64_def
      BASE64_PAD_def table_a2b_base64_def numeral_2_eq_2)

text \<open>
  C6, amended: \<open>b64decode_loose\<close> raises its own invalid-length error, before any padding
  is added and before the library is called, exactly when the length of the string after
  trimming white space (every remaining character counted, \<open>=\<close> included) is 1 modulo 4.
\<close>

theorem C6_rejects_trimmed_length_mod1:
  "b64decode_loose s = Inl InvalidBase64Length \<longleftrightarrow> length (py_strip s) mod 4 = 1"
  by (rule b64decode_loose_mod1_iff)

theorem C6_rejects_trimmed_length_mod1_witness:
  "length (py_strip (str '' QUJDR '')) mod 4 = 1
   \<and> b64decode_loose (str '' QUJDR '') = Inl InvalidBase64Length"
  using C6_rejects_trimmed_length_mod1[of "str '' QUJDR ''"]
  by (simp add: str_def ord_def py_strip_def py_strip_chars_def py_isspace_def)

lemmas eval_defs = str_def ord_def py_strip_def py_strip_chars_def py_isspace_def py_replace_def
  b64decode_loose_def b64decode_def a2b_base64_def BASE64_PAD_def table_a2b_base64_def
  trim_blob_def DQUOTE_def SQUOTE_def split_blob_guess_def suffix_candidates_def
  delimiter_insert_def Let_def numeral_2_eq_2

text \<open>
  C2.  The Splitter tries the delimiter split first, when the trimmed blob has an \<open>=\<close>
  whose following text has between 18 and 30 characters (and so at least 5), then the
  suffix splits for the key lengths 21, 22, 20, 23 in this order; it returns the first
  candidate of that order whose ciphertext half decodes, without looking at a later one,
  and fails with the diagnostics of all of them when none decodes.
\<close>

theorem C2_first_decodable_candidate:
  "split_blob_guess blob =
     (case find decodes (candidate_order (trim_blob blob)) of
        Some c \<Rightarrow> Inr c
      | None \<Rightarrow> Inl (SplitFailed (map diagnostic (candidate_order (trim_blob blob)))))"
  by (rule split_blob_guess_eq)

text \<open>
  C4.  For a trimmed blob of length \<open>L\<close> the suffix candidates are, in the order 21, 22,
  20, 23 of the key lengths \<open>k\<close> with \<open>L > k + 10\<close>, the pairs of \<open>key_material = blob[L-k:L]\<close>
  and \<open>encoded_ciphertext = blob[0:L-k]\<close>, of lengths \<open>k\<close> and \<open>L - k\<close>; a key length with
  \<open>L \<le> k + 10\<close> gives no candidate.
\<close>

theorem C4_suffix_candidates:
  "suffix_candidates blob =
     map (\<lambda>k. (drop (length blob - k) blob, take (length blob - k) blob))
       (filter (\<lambda>k. k + 10 < length blob) [21, 22, 20, 23])
   \<and> (\<forall>k. k + 10 < length blob \<longrightarrow>
         length (take (length blob - k) blob) = length blob - k
         \<and> length (drop (length blob - k) blob) = k)"
  using suffix_candidates_eq[of blob] unfolding suffix_split_def by simp

theorem C4_suffix_candidates_witness:
  "suffix_candidates (replicate 32 65) =
     [(replicate 21 65, replicate 11 65), (replicate 20 65, replicate 12 65)]
   \<and> length (take (32 - 21) (replicate 32 (65::nat))) = 32 - 21
   \<and> length (drop (32 - 21) (replicate 32 (65::nat))) = 21"
  using C4_suffix_candidates[of "replicate 32 65"] by simp

text \<open>
  C9, as the specification words it: white space and exactly one layer of matching quotes
  are removed.  The source removes both layers of a blob wrapped twice in double quotes,
  and removes a single leading quote that nothing matches.
\<close>

theorem C9_one_layer_counterexample:
  "trim_blob (DQUOTE # DQUOTE # str ''abc'' @ [DQUOTE, DQUOTE]) = str ''abc''
   \<and> strip_one_quote_layer (py_strip (DQUOTE # DQUOTE # str ''abc'' @ [DQUOTE, DQUOTE]))
       = DQUOTE # str ''abc'' @ [DQUOTE]
   \<and> trim_blob (DQUOTE # str ''abc'') = str ''abc''
   \<and> strip_one_quote_layer (py_strip (DQUOTE # str ''abc'')) = DQUOTE # str ''abc''"
  by (simp add: eval_defs strip_one_quote_layer_def)

text \<open>
  C9, amended: before any candidate is generated the blob loses its surrounding white
  space, then every leading and every trailing double quote, then every leading and every
  trailing single quote, however many there are and whether or not they match; nothing
  else is removed.  The blob is \<open>w1 d1 s1 t s2 d2 w2\<close> with \<open>t\<close> the trimmed blob, \<open>w1\<close>, \<open>w2\<close>
  white space, \<open>d1\<close>, \<open>d2\<close> double quotes and \<open>s1\<close>, \<open>s2\<close> single quotes, each as long as it
  can be.
\<close>

theorem C9_trim_blob_layers:
  "\<exists>w1 d1 s1 s2 d2 w2.
      blob = w1 @ d1 @ s1 @ trim_blob blob @ s2 @ d2 @ w2
    \<and> list_all py_isspace w1 \<and> list_all py_isspace w2
    \<and> list_all (\<lambda>c. c = DQUOTE) d1 \<and> list_all (\<lambda>c. c = DQUOTE) d2
    \<and> list_all (\<lambda>c. c = SQUOTE) s1 \<and> list_all (\<lambda>c. c = SQUOTE) s2
    \<and> \<not> begins_with py_isspace (d1 @ s1 @ trim_blob blob @ s2 @ d2)
    \<and> \<not> ends_with py_isspace (d1 @ s1 @ trim_blob blob @ s2 @ d2)
    \<and> \<not> begins_with (\<lambda>c. c = DQUOTE) (s1 @ trim_blob blob @ s2)
    \<and> \<not> ends_with (\<lambda>c. c = DQUOTE) (s1 @ trim_blob blob @ s2)
    \<and> \<not> begins_with (\<lambda>c. c = SQUOTE) (trim_blob blob)
    \<and> \<not> ends_with (\<lambda>c. c = SQUOTE) (trim_blob blob)"
  by (rule trim_blob_decomp)

text \<open>
  C10.  A pair returned by \<open>split_blob_guess\<close> cuts the trimmed blob in two: the encoded
  ciphertext followed by the key material is the trimmed blob, for either strategy.
\<close>

theorem C10_split_partitions_blob:
  "split_blob_guess blob = Inr (key_material, enc) \<Longrightarrow> enc @ key_material = trim_blob blob"
  by (rule split_blob_guess_parts)

theorem C10_split_partitions_blob_witness:
  "split_blob_guess (str '' AAAAAAAAAAAAAAAAAAAAAAAAABCDEFGHIJKLMNOPQRSTU'')
     = Inr (str ''ABCDEFGHIJKLMNOPQRSTU'', str ''AAAAAAAAAAAAAAAAAAAAAAAA'')
   \<and> str ''AAAAAAAAAAAAAAAAAAAAAAAA'' @ str ''ABCDEFGHIJKLMNOPQRSTU''
     = trim_blob (str '' AAAAAAAAAAAAAAAAAAAAAAAAABCDEFGHIJKLMNOPQRSTU'')"
proof -
  have e: "split_blob_guess (str '' AAAAAAAAAAAAAAAAAAAAAAAAABCDEFGHIJKLMNOPQRSTU'')
     = Inr (str ''ABCDEFGHIJKLMNOPQRSTU'', str ''AAAAAAAAAAAAAAAAAAAAAAAA'')"
    by (simp add: eval_defs)
  from C10_split_partitions_blob[OF e] e show ?thesis by simp
qed

text \<open>
  C7.  The Locator returns the string at \<open>pageProps.a\<close> when there is one, otherwise the
  string at \<open>props.pageProps.a\<close>, otherwise the first string at a \<open>pageProps.a\<close> of a value
  met in a depth-first traversal of the objects and arrays; it returns \<open>None\<close> exactly
  when no value of the document has a string at \<open>pageProps.a\<close>.
\<close>

theorem C7_find_pageprops_a:
  "find_pageprops_a data =
     (case string_at [str ''pageProps'', str ''a''] data of
        Some s \<Rightarrow> Some s
      | None \<Rightarrow>
          (case string_at [str ''props'', str ''pageProps'', str ''a''] data of
             Some s \<Rightarrow> Some s
           | None \<Rightarrow> first_some (string_at [str ''pageProps'', str ''a'']) (nodes data)))
   \<and> (find_pageprops_a data = None \<longleftrightarrow>
        list_all (\<lambda>n. string_at [str ''pageProps'', str ''a''] n = None) (nodes data))"
  using find_pageprops_a_eq[of data] find_pageprops_a_None[of data] by (rule conjI)

theorem C7_find_pageprops_a_witness:
  "find_pageprops_a
     (JList [JInt 1, JDict [(str ''x'', JList [JDict [(str ''pageProps'',
        JDict [(str ''a'', JStr (str ''deep''))])]])]]) = Some (str ''deep'')
   \<and> find_pageprops_a (JDict [(str ''pageProps'', JDict [(str ''a'', JInt 5)])]) = None"
  using C7_find_pageprops_a[of "JList [JInt 1, JDict [(str ''x'', JList [JDict [(str ''pageProps'',
        JDict [(str ''a'', JStr (str ''deep''))])]])]]"]
    C7_find_pageprops_a[of "JDict [(str ''pageProps'', JDict [(str ''a'', JInt 5)])]"]
  by (simp add: string_at_def dict_get_def str_def ord_def)

text \<open>
  C8, as the specification words it: the program ends with the locate error exactly when
  no string is found, and goes on to the Splitter for any string found, the empty one
  included.  For the document with \<open>pageProps.a\<close> the empty string the Locator
  returns that string and the program ends with the locate error, whatever the platform.
\<close>

theorem C8_empty_string_counterexample:
  "find_pageprops_a (JDict [(str ''pageProps'', JDict [(str ''a'', JStr [])])]) = Some []
   \<and> (\<forall>P. main P (JDict [(str ''pageProps'', JDict [(str ''a'', JStr [])])])
          = Inl LocateError)"
  by (simp add: main_def find_pageprops_a_def pageProps_a_def dict_get_def str_def ord_def)

text \<open>
  C8, amended: the program ends with the locate error exactly when the Locator returns
  \<open>None\<close> or the empty string; whenever the Locator returns a non-empty string, the
  program goes on to the Splitter and its result is that of the Decryptor on that string.
\<close>

theorem C8_locate_error:
  "(main P data = Inl LocateError \<longleftrightarrow>
      find_pageprops_a data = None \<or> find_pageprops_a data = Some [])
   \<and> (\<forall>blob. find_pageprops_a data = Some blob \<and> blob \<noteq> []
         \<longrightarrow> main P data = decrypt_blob P blob)"
  using main_locate_error[of P data] main_proceeds[of data _ P] by blast

theorem C8_locate_error_witness:
  "\<forall>P. main P (JDict [(str ''pageProps'', JDict [(str ''a'', JStr (str ''x''))])])
          = decrypt_blob P (str ''x'')
      \<and> main P (JDict [(str ''pageProps'', JDict [(str ''a'', JStr (str ''x''))])])
          \<noteq> Inl LocateError"
proof (intro allI conjI)
  fix P
  let ?d = "JDict [(str ''pageProps'', JDict [(str ''a'', JStr (str ''x''))])]"
  have f: "find_pageprops_a ?d = Some (str ''x'')"
    by (simp add: find_pageprops_a_def pageProps_a_def dict_get_def str_def ord_def)
  have n: "str ''x'' \<noteq> []" by (simp add: str_def)
  have t: "(main P ?d = Inl LocateError \<longleftrightarrow>
      find_pageprops_a ?d = None \<or> find_pageprops_a ?d = Some [])
   \<and> (\<forall>blob. find_pageprops_a ?d = Some blob \<and> blob \<noteq> []
         \<longrightarrow> main P ?d = decrypt_blob P blob)"
    by (rule C8_locate_error)
  from t f n show "main P ?d = decrypt_blob P (str ''x'')" by blast
  from t have "main P ?d = Inl LocateError \<longleftrightarrow>
      find_pageprops_a ?d = None \<or> find_pageprops_a ?d = Some []" ..
  then show "main P ?d \<noteq> Inl LocateError" unfolding f using n by simp
qed

end
